theory Spec2Isabelle
  imports Main "HOL-Library.Sublist"
begin

section \<open>Data model of \<^verbatim>\<open>src/app.js\<close>\<close>

text \<open>
  The server keeps all of its metadata in one JSON file (\<^verbatim>\<open>META_FILE\<close>) with two members:
  the array \<^verbatim>\<open>files\<close> and the object \<^verbatim>\<open>locks\<close>, keyed by file name. Uploaded bytes live
  under \<^verbatim>\<open>STORAGE_DIR\<close>. Timestamps (\<^verbatim>\<open>new Date()\<close>) are passed in as numbers, and the
  SHA-256 digest of \<^verbatim>\<open>crypto\<close> is a parameter \<open>H\<close> of every function that hashes.
  The metadata file is taken to exist, to parse, and to be writable: the handlers have no
  branch for anything else. The login route, the token lookup of \<^verbatim>\<open>auth\<close>, \<^verbatim>\<open>isLocked\<close>
  (which nothing calls) and \<^verbatim>\<open>GET /admin/locks\<close> take no part in what follows and are
  left out; every handler below runs after \<^verbatim>\<open>auth\<close> has accepted the request.
\<close>

record version_record =
  version :: nat
  path :: string
  hash :: string
  uploadedBy :: string
  uploadedAt :: nat

record file_record =
  name :: string
  versions :: "version_record list"

record lock_entry =
  lockedBy :: string
  lockedAt :: nat

record metadata =
  files :: "file_record list"
  locks :: "string \<rightharpoonup> lock_entry"

text \<open>The user that the \<^verbatim>\<open>auth\<close> middleware has put into \<^verbatim>\<open>req.user\<close>.\<close>

record user =
  username :: string
  role :: string

text \<open>The disk: the parsed content of the metadata file, and the stored blobs by path.\<close>

record disk =
  meta_file :: metadata
  storage :: "string \<rightharpoonup> string"

text \<open>
  What a handler sends. \<open>Json_message c m\<close> is \<^verbatim>\<open>res.status(c).json({ message: m })\<close>
  (status 200 for a plain \<^verbatim>\<open>res.json\<close>); \<open>Uncaught_exception\<close> is a handler that
  threw (\<^verbatim>\<open>fs.readFileSync\<close> on a path that cannot be read) and ran no further.
\<close>

datatype response =
  Json_message nat string
| Uploaded nat
| Json_files "file_record list"
| Json_versions "version_record list"
| Download string
| Verify_json string string bool
| Uncaught_exception

section \<open>Helpers\<close>

definition loadMetadata :: "disk \<Rightarrow> metadata" where
  "loadMetadata s = meta_file s"

definition saveMetadata :: "metadata \<Rightarrow> disk \<Rightarrow> disk" where
  "saveMetadata data s = s\<lparr>meta_file := data\<rparr>"

definition generateHash :: "(string \<Rightarrow> string) \<Rightarrow> string \<Rightarrow> disk \<Rightarrow> string option" where
  "generateHash H filePath s = map_option H (storage s filePath)"

subsection \<open>Property access on the \<^verbatim>\<open>locks\<close> object\<close>

text \<open>
  \<^verbatim>\<open>locks\<close> is a plain object made by \<^verbatim>\<open>JSON.parse\<close>, so \<^verbatim>\<open>meta.locks[k]\<close> first looks at
  the object's own properties and then at \<^verbatim>\<open>Object.prototype\<close>. For the property names of
  \<^verbatim>\<open>Object.prototype\<close> the read gives a function (or, for \<^verbatim>\<open>__proto__\<close>, the prototype
  itself): a truthy value without a \<^verbatim>\<open>lockedBy\<close> member.
\<close>

definition Object_prototype_keys :: "string list" where
  "Object_prototype_keys =
     [''constructor'', ''__defineGetter__'', ''__defineSetter__'', ''hasOwnProperty'',
      ''__lookupGetter__'', ''__lookupSetter__'', ''isPrototypeOf'', ''propertyIsEnumerable'',
      ''toString'', ''valueOf'', ''__proto__'', ''toLocaleString'']"

datatype property = Undefined | Own lock_entry | Inherited

definition get_property :: "(string \<rightharpoonup> lock_entry) \<Rightarrow> string \<Rightarrow> property" where
  "get_property obj k =
     (case obj k of
        Some e \<Rightarrow> Own e
      | None \<Rightarrow> if k \<in> set Object_prototype_keys then Inherited else Undefined)"

text \<open>
  \<^verbatim>\<open>obj[k] = e\<close>. Assigning to \<^verbatim>\<open>__proto__\<close> when the object has no own property of that
  name runs the inherited setter: it replaces the prototype and creates no own property, so
  nothing of it reaches \<^verbatim>\<open>JSON.stringify\<close>.
\<close>

definition set_property :: "(string \<rightharpoonup> lock_entry) \<Rightarrow> string \<Rightarrow> lock_entry \<Rightarrow> (string \<rightharpoonup> lock_entry)" where
  "set_property obj k e = (if k = ''__proto__'' \<and> obj k = None then obj else obj(k \<mapsto> e))"

text \<open>\<^verbatim>\<open>delete obj[k]\<close> removes an own property and does nothing otherwise.\<close>

definition delete_property :: "(string \<rightharpoonup> lock_entry) \<Rightarrow> string \<Rightarrow> (string \<rightharpoonup> lock_entry)" where
  "delete_property obj k = obj(k := None)"

text \<open>
  The test of the upload handler,
  \<^verbatim>\<open>meta.locks[n] && meta.locks[n].lockedBy !== req.user.username\<close>.
\<close>

definition lock_conflict :: "metadata \<Rightarrow> string \<Rightarrow> user \<Rightarrow> bool" where
  "lock_conflict meta originalname usr =
     (case get_property (locks meta) originalname of
        Undefined \<Rightarrow> False
      | Own e \<Rightarrow> lockedBy e \<noteq> username usr
      | Inherited \<Rightarrow> True)"

section \<open>File locking\<close>

definition lockFile :: "string \<Rightarrow> user \<Rightarrow> nat \<Rightarrow> disk \<Rightarrow> disk" where
  "lockFile filename usr now s =
     (let data = loadMetadata s
      in saveMetadata
           (data\<lparr>locks := set_property (locks data) filename
                              \<lparr>lockedBy = username usr, lockedAt = now\<rparr>\<rparr>) s)"

definition unlockFile :: "string \<Rightarrow> disk \<Rightarrow> disk" where
  "unlockFile filename s =
     (let data = loadMetadata s
      in saveMetadata (data\<lparr>locks := delete_property (locks data) filename\<rparr>) s)"

section \<open>Upload\<close>

text \<open>
  \<^verbatim>\<open>file\<close> is a reference to the first element of \<^verbatim>\<open>meta.files\<close> with the name, so
  \<^verbatim>\<open>file.versions.push\<close> changes that element in place.
\<close>

fun update_first :: "('a \<Rightarrow> bool) \<Rightarrow> ('a \<Rightarrow> 'a) \<Rightarrow> 'a list \<Rightarrow> 'a list" where
  "update_first P g [] = []"
| "update_first P g (x # xs) = (if P x then g x # xs else x # update_first P g xs)"

definition push_version ::
  "file_record list \<Rightarrow> string \<Rightarrow> string \<Rightarrow> string \<Rightarrow> string \<Rightarrow> nat \<Rightarrow> file_record list \<times> nat" where
  "push_version fs originalname pth h by now =
     (case find (\<lambda>f. name f = originalname) fs of
        None \<Rightarrow>
          (let file = \<lparr>name = originalname, versions = []\<rparr>;
               ver = length (versions file) + 1
           in (fs @ [file\<lparr>versions := versions file @
                 [\<lparr>version = ver, path = pth, hash = h, uploadedBy = by, uploadedAt = now\<rparr>]\<rparr>],
               ver))
      | Some file \<Rightarrow>
          (let ver = length (versions file) + 1
           in (update_first (\<lambda>f. name f = originalname)
                 (\<lambda>f. f\<lparr>versions := versions f @
                   [\<lparr>version = ver, path = pth, hash = h, uploadedBy = by, uploadedAt = now\<rparr>]\<rparr>) fs,
               ver)))"

text \<open>
  The handler of \<^verbatim>\<open>POST /upload\<close>, after \<^verbatim>\<open>auth\<close> and after multer has stored the bytes
  at \<open>pth\<close>. \<open>meta\<close> is read once, before \<open>lockFile\<close>, and is what the last
  \<open>saveMetadata\<close> writes. The two timestamps are the two \<^verbatim>\<open>new Date()\<close>.
  The broadcast \<^verbatim>\<open>io.emit\<close> touches no state and is left out.
\<close>

definition upload ::
  "(string \<Rightarrow> string) \<Rightarrow> user \<Rightarrow> string \<Rightarrow> string \<Rightarrow> nat \<Rightarrow> nat \<Rightarrow> disk \<Rightarrow> response \<times> disk" where
  "upload H usr originalname pth t_lock t_up s =
     (let meta = loadMetadata s
      in if lock_conflict meta originalname usr
         then (Json_message 423 ''File is locked'', s)
         else
           (let s1 = lockFile originalname usr t_lock s
            in case generateHash H pth s1 of
                 None \<Rightarrow> (Uncaught_exception, s1)
               | Some h \<Rightarrow>
                   (let (fs, ver) = push_version (files meta) originalname pth h (username usr) t_up;
                        s2 = unlockFile originalname s1;
                        s3 = saveMetadata (meta\<lparr>files := fs\<rparr>) s2
                    in (Uploaded ver, s3))))"

section \<open>Reading handlers\<close>

definition listFiles :: "disk \<Rightarrow> response \<times> disk" where
  "listFiles s = (let meta = loadMetadata s in (Json_files (files meta), s))"

definition listVersions :: "string \<Rightarrow> disk \<Rightarrow> response \<times> disk" where
  "listVersions n s =
     (let meta = loadMetadata s
      in case find (\<lambda>f. name f = n) (files meta) of
           None \<Rightarrow> (Json_message 404 ''Not found'', s)
         | Some file \<Rightarrow> (Json_versions (versions file), s))"

text \<open>
  The route parameter \<^verbatim>\<open>:version\<close> is a string, and \<^verbatim>\<open>v.version == version\<close> compares after
  converting it to a number; \<open>ver\<close> is that number. A parameter that converts to no
  stored number finds nothing, as a number absent from the list does.
\<close>

definition download :: "string \<Rightarrow> nat \<Rightarrow> disk \<Rightarrow> response \<times> disk" where
  "download n ver s =
     (let meta = loadMetadata s
      in case find (\<lambda>f. name f = n) (files meta) of
           None \<Rightarrow> (Json_message 404 ''Not found'', s)
         | Some file \<Rightarrow>
             (case find (\<lambda>v. version v = ver) (versions file) of
                None \<Rightarrow> (Json_message 404 ''Version not found'', s)
              | Some v \<Rightarrow> (Download (path v), s)))"

definition verify :: "(string \<Rightarrow> string) \<Rightarrow> string \<Rightarrow> nat \<Rightarrow> disk \<Rightarrow> response \<times> disk" where
  "verify H n ver s =
     (let meta = loadMetadata s
      in case find (\<lambda>f. name f = n) (files meta) of
           None \<Rightarrow> (Json_message 404 ''Not found'', s)
         | Some file \<Rightarrow>
             (case find (\<lambda>v. version v = ver) (versions file) of
                None \<Rightarrow> (Json_message 404 ''Version not found'', s)
              | Some v \<Rightarrow>
                  (case generateHash H (path v) s of
                     None \<Rightarrow> (Uncaught_exception, s)
                   | Some currentHash \<Rightarrow>
                       (Verify_json (hash v) currentHash (hash v = currentHash), s))))"

section \<open>Admin routes\<close>

text \<open>\<^verbatim>\<open>POST /admin/unlock/:name\<close> behind the \<^verbatim>\<open>adminOnly\<close> middleware.\<close>

definition admin_unlock :: "user \<Rightarrow> string \<Rightarrow> disk \<Rightarrow> response \<times> disk" where
  "admin_unlock usr n s =
     (if role usr \<noteq> ''admin'' then (Json_message 403 ''Admin only'', s)
      else (Json_message 200 ''Unlocked'', unlockFile n s))"

section \<open>Requests that arrive together\<close>

text \<open>
  The body of the upload handler is synchronous: it has no callback, promise or
  \<^verbatim>\<open>await\<close>, and every file access is a \<^verbatim>\<open>Sync\<close> call. Node runs it to completion
  before it takes up the next request, so uploads that arrive together are served one after
  another, in some order: a list of requests, each with the user of \<^verbatim>\<open>auth\<close>, the name and
  path of multer, and its two timestamps.
\<close>

record upload_request =
  req_user :: user
  req_originalname :: string
  req_path :: string
  req_lock_time :: nat
  req_upload_time :: nat

fun serve_uploads :: "(string \<Rightarrow> string) \<Rightarrow> upload_request list \<Rightarrow> disk \<Rightarrow> response list \<times> disk" where
  "serve_uploads H [] s = ([], s)"
| "serve_uploads H (r # rs) s =
     (let (answer, s1) = upload H (req_user r) (req_originalname r) (req_path r)
                           (req_lock_time r) (req_upload_time r) s;
          (answers, s2) = serve_uploads H rs s1
      in (answer # answers, s2))"

section \<open>Notions used in the statements\<close>

text \<open>A version list is contiguous when it reads 1, 2, ..., in this order.\<close>

definition contiguous :: "version_record list \<Rightarrow> bool" where
  "contiguous vs = (map version vs = [1..<length vs + 1])"

definition versions_ok :: "metadata \<Rightarrow> bool" where
  "versions_ok meta = list_all (\<lambda>f. contiguous (versions f)) (files meta)"

text \<open>The largest version number of a record (0 for a record without versions).\<close>

definition currentMax :: "file_record \<Rightarrow> nat" where
  "currentMax f = fold max (map version (versions f)) 0"

text \<open>The number of versions of the first record of a name (0 when there is none).\<close>

definition version_count :: "string \<Rightarrow> disk \<Rightarrow> nat" where
  "version_count n s =
     (case find (\<lambda>f. name f = n) (files (loadMetadata s)) of
        None \<Rightarrow> 0
      | Some f \<Rightarrow> length (versions f))"

text \<open>
  What the server's disk can become: uploads, forced unlocks, and any change of the stored
  blobs (multer writing the next upload, or somebody editing a file) in any order.
\<close>

inductive reachable :: "(string \<Rightarrow> string) \<Rightarrow> disk \<Rightarrow> disk \<Rightarrow> bool" for H :: "string \<Rightarrow> string" and s0 :: disk where
  start: "reachable H s0 s0"
| upload_step: "reachable H s0 s \<Longrightarrow> reachable H s0 (snd (upload H usr n pth t_lock t_up s))"
| unlock_step: "reachable H s0 s \<Longrightarrow> reachable H s0 (snd (admin_unlock usr n s))"
| storage_step: "reachable H s0 s \<Longrightarrow> reachable H s0 (s\<lparr>storage := blobs\<rparr>)"

text \<open>
  The external contract \<^verbatim>\<open>listFiles() -> [{name, versionCount}]\<close> as the specification
  words it, to be compared with \<open>listFiles\<close>.
\<close>

definition listFiles_spec :: "disk \<Rightarrow> (string \<times> nat) list" where
  "listFiles_spec s = map (\<lambda>f. (name f, length (versions f))) (files (loadMetadata s))"

subsection \<open>Concrete data for the examples\<close>

definition alice :: user where
  "alice = \<lparr>username = ''alice'', role = ''user''\<rparr>"

definition root :: user where
  "root = \<lparr>username = ''root'', role = ''admin''\<rparr>"

text \<open>A stand-in for the digest in the examples.\<close>

definition example_digest :: "string \<Rightarrow> string" where
  "example_digest bytes = rev bytes"

definition empty_disk :: disk where
  "empty_disk = \<lparr>meta_file = \<lparr>files = [], locks = Map.empty\<rparr>, storage = Map.empty\<rparr>"

text \<open>An empty metadata file, and the bytes of one upload already stored by multer.\<close>

definition fresh_disk :: disk where
  "fresh_disk = \<lparr>meta_file = \<lparr>files = [], locks = Map.empty\<rparr>,
                  storage = [''storage/files/7-spec.txt'' \<mapsto> ''hello'']\<rparr>"

text \<open>The same, with \<^verbatim>\<open>spec.txt\<close> locked by the given holder.\<close>

definition held_by :: "string \<Rightarrow> disk" where
  "held_by holder =
     \<lparr>meta_file = \<lparr>files = [],
                   locks = [''spec.txt'' \<mapsto> \<lparr>lockedBy = holder, lockedAt = 5\<rparr>]\<rparr>,
      storage = [''storage/files/7-spec.txt'' \<mapsto> ''hello'']\<rparr>"

text \<open>
  One record \<^verbatim>\<open>spec.txt\<close> with one version stored under the given hash.
\<close>

definition stored :: "string \<Rightarrow> disk" where
  "stored h =
     \<lparr>meta_file =
        \<lparr>files = [\<lparr>name = ''spec.txt'',
                    versions = [\<lparr>version = 1, path = ''storage/files/7-spec.txt'', hash = h,
                                 uploadedBy = ''alice'', uploadedAt = 9\<rparr>]\<rparr>],
         locks = Map.empty\<rparr>,
      storage = [''storage/files/7-spec.txt'' \<mapsto> ''hello'']\<rparr>"

text \<open>
  A disk in use: two files with one version each, \<^verbatim>\<open>notes.md\<close> locked by bob, and the
  blobs of two further uploads of \<^verbatim>\<open>spec.txt\<close>, one by alice and one by bob.
\<close>

definition bob :: user where
  "bob = \<lparr>username = ''bob'', role = ''user''\<rparr>"

definition busy_disk :: disk where
  "busy_disk =
     \<lparr>meta_file =
        \<lparr>files = [\<lparr>name = ''notes.md'',
                    versions = [\<lparr>version = 1, path = ''storage/files/2-notes.md'', hash = ''seton'',
                                 uploadedBy = ''bob'', uploadedAt = 2\<rparr>]\<rparr>,
                  \<lparr>name = ''spec.txt'',
                    versions = [\<lparr>version = 1, path = ''storage/files/7-spec.txt'', hash = ''olleh'',
                                 uploadedBy = ''alice'', uploadedAt = 9\<rparr>]\<rparr>],
         locks = [''notes.md'' \<mapsto> \<lparr>lockedBy = ''bob'', lockedAt = 3\<rparr>]\<rparr>,
      storage = [''storage/files/2-notes.md'' \<mapsto> ''notes'',
                 ''storage/files/7-spec.txt'' \<mapsto> ''hello'',
                 ''storage/files/12-spec.txt'' \<mapsto> ''hello again'',
                 ''storage/files/15-spec.txt'' \<mapsto> ''hello bob'']\<rparr>"

definition by_alice :: upload_request where
  "by_alice = \<lparr>req_user = alice, req_originalname = ''spec.txt'',
                req_path = ''storage/files/12-spec.txt'', req_lock_time = 13, req_upload_time = 14\<rparr>"

definition by_bob :: upload_request where
  "by_bob = \<lparr>req_user = bob, req_originalname = ''spec.txt'',
              req_path = ''storage/files/15-spec.txt'', req_lock_time = 16, req_upload_time = 17\<rparr>"

section \<open>Lock release\<close>

lemma unlockFile_locks:
  "locks (loadMetadata (unlockFile n s)) = (locks (loadMetadata s))(n := None)"
  by (simp add: unlockFile_def loadMetadata_def saveMetadata_def delete_property_def Let_def)

lemma unlockFile_files: "files (loadMetadata (unlockFile n s)) = files (loadMetadata s)"
  by (simp add: unlockFile_def loadMetadata_def saveMetadata_def Let_def)

lemma unlockFile_noop:
  assumes "locks (loadMetadata s) n = None"
  shows "unlockFile n s = s"
proof -
  have "(locks (meta_file s))(n := None) = locks (meta_file s)"
    using assms by (simp add: loadMetadata_def fun_upd_idem)
  then show ?thesis
    by (simp add: unlockFile_def loadMetadata_def saveMetadata_def delete_property_def Let_def)
qed

lemma unlockFile_twice: "unlockFile n (unlockFile n s) = unlockFile n s"
  by (simp add: unlockFile_def loadMetadata_def saveMetadata_def delete_property_def Let_def)

text \<open>
  C7. Releasing is idempotent. \<open>unlockFile\<close> on a name without a lock entry leaves the disk
  as it is; on a locked name it removes the entry whoever holds it, and touches neither the
  files nor the other locks; doing it twice is doing it once. The admin route, for an admin,
  answers "Unlocked" in every case and does exactly \<open>unlockFile\<close>.
\<close>

theorem release_idempotent:
  "(locks (loadMetadata s) n = None \<longrightarrow> unlockFile n s = s)
   \<and> locks (loadMetadata (unlockFile n s)) n = None
   \<and> files (loadMetadata (unlockFile n s)) = files (loadMetadata s)
   \<and> (\<forall>k. k \<noteq> n \<longrightarrow> locks (loadMetadata (unlockFile n s)) k = locks (loadMetadata s) k)
   \<and> unlockFile n (unlockFile n s) = unlockFile n s
   \<and> (role usr = ''admin'' \<longrightarrow>
        admin_unlock usr n s = (Json_message 200 ''Unlocked'', unlockFile n s))"
  using unlockFile_noop [of s n] unlockFile_twice [of n s]
  by (simp add: unlockFile_locks unlockFile_files admin_unlock_def)

theorem release_idempotent_witness:
  "unlockFile ''spec.txt'' fresh_disk = fresh_disk
   \<and> locks (loadMetadata (held_by ''alice'')) ''spec.txt'' \<noteq> None
   \<and> locks (loadMetadata (unlockFile ''spec.txt'' (held_by ''alice''))) ''spec.txt'' = None
   \<and> role root = ''admin''
   \<and> admin_unlock root ''spec.txt'' (held_by ''alice'')
       = (Json_message 200 ''Unlocked'', unlockFile ''spec.txt'' (held_by ''alice''))"
  using release_idempotent [of fresh_disk "''spec.txt''" root]
        release_idempotent [of "held_by ''alice''" "''spec.txt''" root]
  by (simp add: fresh_disk_def held_by_def root_def loadMetadata_def)


section \<open>The three exits of the upload handler\<close>

lemma upload_conflict:
  "lock_conflict (loadMetadata s) n u \<Longrightarrow>
   upload H u n p t1 t2 s = (Json_message 423 ''File is locked'', s)"
  by (simp add: upload_def Let_def)

lemma upload_hash_failure:
  "\<not> lock_conflict (loadMetadata s) n u \<Longrightarrow> storage s p = None \<Longrightarrow>
   upload H u n p t1 t2 s = (Uncaught_exception, lockFile n u t1 s)"
  by (simp add: upload_def Let_def generateHash_def lockFile_def saveMetadata_def)

lemma upload_success:
  "\<not> lock_conflict (loadMetadata s) n u \<Longrightarrow> storage s p = Some b \<Longrightarrow>
   upload H u n p t1 t2 s =
     (Uploaded (snd (push_version (files (loadMetadata s)) n p (H b) (username u) t2)),
      s\<lparr>meta_file := (loadMetadata s)
           \<lparr>files := fst (push_version (files (loadMetadata s)) n p (H b) (username u) t2)\<rparr>\<rparr>)"
  by (simp add: upload_def Let_def generateHash_def lockFile_def unlockFile_def
      saveMetadata_def loadMetadata_def split: prod.splits)

lemma upload_UploadedD:
  assumes "upload H u n p t1 t2 s = (Uploaded v, s')"
  shows "\<not> lock_conflict (loadMetadata s) n u \<and> (\<exists>b. storage s p = Some b)"
proof (cases "lock_conflict (loadMetadata s) n u")
  case True
  then show ?thesis using assms by (simp add: upload_conflict)
next
  case False
  then show ?thesis using assms by (cases "storage s p") (simp_all add: upload_hash_failure)
qed

lemma no_conflict_unlocked:
  "\<not> lock_conflict meta n u \<Longrightarrow> locks meta n = None \<Longrightarrow> n \<notin> set Object_prototype_keys"
  by (auto simp: lock_conflict_def get_property_def split: if_splits)

lemma own_entry_conflict:
  "locks meta n = Some e \<Longrightarrow> lock_conflict meta n u \<longleftrightarrow> lockedBy e \<noteq> username u"
  by (simp add: lock_conflict_def get_property_def)

lemma lockFile_sets_entry:
  assumes "\<not> lock_conflict (loadMetadata s) n u"
  shows "locks (loadMetadata (lockFile n u t s)) n = Some \<lparr>lockedBy = username u, lockedAt = t\<rparr>"
proof -
  have "''__proto__'' \<in> set Object_prototype_keys"
    by (simp add: Object_prototype_keys_def)
  then have "\<not> (n = ''__proto__'' \<and> locks (meta_file s) n = None)"
    using assms no_conflict_unlocked [of "loadMetadata s" n u]
    by (auto simp: loadMetadata_def)
  then show ?thesis
    by (auto simp: lockFile_def loadMetadata_def saveMetadata_def set_property_def Let_def)
qed

lemma upload_success_locks:
  assumes "upload H u n p t1 t2 s = (Uploaded v, s')"
  shows "locks (loadMetadata s') = locks (loadMetadata s)"
proof -
  obtain b where "\<not> lock_conflict (loadMetadata s) n u" "storage s p = Some b"
    using upload_UploadedD [OF assms] by blast
  then show ?thesis using assms by (auto simp: upload_success loadMetadata_def)
qed

text \<open>
  An upload by the principal who already holds the lock succeeds and leaves the old lock
  entry in place: the snapshot read before \<open>lockFile\<close> is written back after \<open>unlockFile\<close>.
\<close>

lemma upload_by_holder_keeps_lock:
  assumes "locks (loadMetadata s) n = Some e" and "lockedBy e = username u"
    and "storage s p = Some b"
  shows "\<exists>v s'. upload H u n p t1 t2 s = (Uploaded v, s') \<and> locks (loadMetadata s') n = Some e"
proof -
  have "\<not> lock_conflict (loadMetadata s) n u"
    using assms(1,2) by (simp add: own_entry_conflict)
  then show ?thesis
    using assms(1,3) by (simp add: upload_success loadMetadata_def)
qed

section \<open>The lock around an upload\<close>

text \<open>
  C1 (as amended). An upload that passes the lock test and finds no lock entry for its name:
  when the blob can be hashed, the upload succeeds and no lock entry for the name exists
  afterwards; when the hashing throws, the handler stops there, and the entry that
  \<open>lockFile\<close> wrote for the uploader is still on disk.
\<close>

theorem upload_releases_fresh_lock:
  assumes "\<not> lock_conflict (loadMetadata s) n u" and "locks (loadMetadata s) n = None"
  shows "(storage s p \<noteq> None \<longrightarrow>
            (\<exists>v s'. upload H u n p t1 t2 s = (Uploaded v, s') \<and> locks (loadMetadata s') n = None))
       \<and> (storage s p = None \<longrightarrow>
            upload H u n p t1 t2 s = (Uncaught_exception, lockFile n u t1 s)
            \<and> locks (loadMetadata (lockFile n u t1 s)) n
                = Some \<lparr>lockedBy = username u, lockedAt = t1\<rparr>)"
proof (cases "storage s p")
  case None
  then show ?thesis
    using assms(1) by (simp add: upload_hash_failure lockFile_sets_entry)
next
  case (Some b)
  then show ?thesis
    using assms by (simp add: upload_success loadMetadata_def)
qed

theorem upload_releases_fresh_lock_witness:
  "\<not> lock_conflict (loadMetadata fresh_disk) ''spec.txt'' alice
   \<and> locks (loadMetadata fresh_disk) ''spec.txt'' = None
   \<and> storage fresh_disk ''storage/files/7-spec.txt'' \<noteq> None
   \<and> (\<exists>v s'. upload example_digest alice ''spec.txt'' ''storage/files/7-spec.txt'' 8 9 fresh_disk
                 = (Uploaded v, s')
             \<and> locks (loadMetadata s') ''spec.txt'' = None)"
proof -
  have a: "\<not> lock_conflict (loadMetadata fresh_disk) ''spec.txt'' alice"
    by (simp add: lock_conflict_def get_property_def Object_prototype_keys_def
        fresh_disk_def loadMetadata_def)
  have b: "locks (loadMetadata fresh_disk) ''spec.txt'' = None"
    by (simp add: fresh_disk_def loadMetadata_def)
  have c: "storage fresh_disk ''storage/files/7-spec.txt'' \<noteq> None"
    by (simp add: fresh_disk_def)
  show ?thesis
    using a b c upload_releases_fresh_lock [OF a b, of "''storage/files/7-spec.txt''" example_digest 8 9]
    by simp
qed

text \<open>
  C1 as stated fails: on an empty metadata file the upload passes the lock test, the blob
  cannot be read, and the name is locked by the uploader afterwards.
\<close>

theorem failed_hash_leaves_lock:
  "\<not> lock_conflict (loadMetadata empty_disk) ''spec.txt'' alice
   \<and> fst (upload example_digest alice ''spec.txt'' ''storage/files/7-spec.txt'' 8 9 empty_disk)
       = Uncaught_exception
   \<and> locks (loadMetadata
        (snd (upload example_digest alice ''spec.txt'' ''storage/files/7-spec.txt'' 8 9 empty_disk)))
        ''spec.txt'' = Some \<lparr>lockedBy = ''alice'', lockedAt = 8\<rparr>"
proof -
  have a: "\<not> lock_conflict (loadMetadata empty_disk) ''spec.txt'' alice"
    by (simp add: lock_conflict_def get_property_def Object_prototype_keys_def
        empty_disk_def loadMetadata_def)
  have b: "storage empty_disk ''storage/files/7-spec.txt'' = None"
    by (simp add: empty_disk_def)
  have c: "upload example_digest alice ''spec.txt'' ''storage/files/7-spec.txt'' 8 9 empty_disk
             = (Uncaught_exception, lockFile ''spec.txt'' alice 8 empty_disk)"
    by (rule upload_hash_failure [OF a b])
  have d: "locks (loadMetadata (lockFile ''spec.txt'' alice 8 empty_disk)) ''spec.txt''
             = Some \<lparr>lockedBy = username alice, lockedAt = 8\<rparr>"
    by (rule lockFile_sets_entry [OF a])
  have e: "username alice = ''alice''"
    by (simp add: alice_def)
  show ?thesis
    using a d by (simp only: c fst_conv snd_conv e) simp
qed

text \<open>
  C3 (as amended). When the name has a lock entry held by somebody else, the upload answers
  status 423 with the fixed message "File is locked", which does not name the holder, and
  the disk (files, versions, locks, blobs) is as before.
\<close>

theorem upload_locked_by_other:
  assumes "locks (loadMetadata s) n = Some e" and "lockedBy e \<noteq> username u"
  shows "upload H u n p t1 t2 s = (Json_message 423 ''File is locked'', s)"
  using assms by (simp add: upload_conflict own_entry_conflict)

theorem upload_locked_by_other_witness:
  "locks (loadMetadata (held_by ''bob'')) ''spec.txt'' = Some \<lparr>lockedBy = ''bob'', lockedAt = 5\<rparr>
   \<and> lockedBy \<lparr>lockedBy = ''bob'', lockedAt = 5\<rparr> \<noteq> username alice
   \<and> upload example_digest alice ''spec.txt'' ''storage/files/7-spec.txt'' 8 9 (held_by ''bob'')
       = (Json_message 423 ''File is locked'', held_by ''bob'')"
proof -
  have a: "locks (loadMetadata (held_by ''bob'')) ''spec.txt'' = Some \<lparr>lockedBy = ''bob'', lockedAt = 5\<rparr>"
    by (simp add: held_by_def loadMetadata_def)
  have b: "lockedBy \<lparr>lockedBy = ''bob'', lockedAt = 5\<rparr> \<noteq> username alice"
    by (simp add: alice_def)
  show ?thesis using a b upload_locked_by_other [OF a b] by simp
qed

text \<open>
  C3 as stated fails: the answer to alice is the same whether bob or carol holds the lock,
  so it does not carry the holder.
\<close>

theorem locked_response_without_holder:
  "locks (loadMetadata (held_by ''bob'')) ''spec.txt'' = Some \<lparr>lockedBy = ''bob'', lockedAt = 5\<rparr>
   \<and> locks (loadMetadata (held_by ''carol'')) ''spec.txt'' = Some \<lparr>lockedBy = ''carol'', lockedAt = 5\<rparr>
   \<and> fst (upload example_digest alice ''spec.txt'' ''storage/files/7-spec.txt'' 8 9 (held_by ''bob''))
       = Json_message 423 ''File is locked''
   \<and> fst (upload example_digest alice ''spec.txt'' ''storage/files/7-spec.txt'' 8 9 (held_by ''bob''))
       = fst (upload example_digest alice ''spec.txt'' ''storage/files/7-spec.txt'' 8 9 (held_by ''carol''))"
proof -
  have "lock_conflict (loadMetadata (held_by ''bob'')) ''spec.txt'' alice"
    "lock_conflict (loadMetadata (held_by ''carol'')) ''spec.txt'' alice"
    by (simp_all add: lock_conflict_def get_property_def held_by_def loadMetadata_def alice_def)
  then show ?thesis
    by (simp add: upload_conflict) (simp add: held_by_def loadMetadata_def)
qed

text \<open>
  Acquisition for a name that is not a property name of \<^verbatim>\<open>Object.prototype\<close>: without a
  lock entry, or with one held by the uploader, the upload goes past the lock test and
  \<open>lockFile\<close> writes the entry for the uploader.
\<close>

lemma upload_acquires:
  assumes "n \<notin> set Object_prototype_keys"
    and "locks (loadMetadata s) n = None \<or> (\<exists>e. locks (loadMetadata s) n = Some e \<and> lockedBy e = username u)"
  shows "upload H u n p t1 t2 s \<noteq> (Json_message 423 ''File is locked'', s)
       \<and> locks (loadMetadata (lockFile n u t1 s)) n = Some \<lparr>lockedBy = username u, lockedAt = t1\<rparr>"
proof -
  have nc: "\<not> lock_conflict (loadMetadata s) n u"
    using assms by (auto simp: lock_conflict_def get_property_def)
  show ?thesis
    using nc by (cases "storage s p") (simp_all add: upload_hash_failure upload_success lockFile_sets_entry)
qed

text \<open>
  C6 at the file name \<^verbatim>\<open>constructor\<close>: the metadata has no lock entry for it, yet
  \<^verbatim>\<open>meta.locks["constructor"]\<close> is the inherited function, whose \<^verbatim>\<open>lockedBy\<close> is undefined and
  so differs from every user name: the upload is refused with 423.
\<close>

theorem upload_constructor_rejected:
  "locks (loadMetadata fresh_disk) ''constructor'' = None
   \<and> upload example_digest alice ''constructor'' ''storage/files/7-spec.txt'' 8 9 fresh_disk
       = (Json_message 423 ''File is locked'', fresh_disk)"
proof -
  have "lock_conflict (loadMetadata fresh_disk) ''constructor'' alice"
    by (simp add: lock_conflict_def get_property_def Object_prototype_keys_def
        fresh_disk_def loadMetadata_def)
  then show ?thesis
    by (simp add: upload_conflict) (simp add: fresh_disk_def loadMetadata_def)
qed

section \<open>Lists and version numbers\<close>

lemma contiguous_nth:
  "contiguous vs \<longleftrightarrow> (\<forall>i<length vs. version (vs ! i) = i + 1)"
proof
  assume c: "contiguous vs"
  show "\<forall>i<length vs. version (vs ! i) = i + 1"
  proof (intro allI impI)
    fix i assume i: "i < length vs"
    then have "version (vs ! i) = map version vs ! i" by simp
    also have "\<dots> = [1..<length vs + 1] ! i" using c by (simp add: contiguous_def)
    also have "\<dots> = i + 1" using i by (simp del: upt_Suc)
    finally show "version (vs ! i) = i + 1" .
  qed
next
  assume a: "\<forall>i<length vs. version (vs ! i) = i + 1"
  have "map version vs = [1..<length vs + 1]"
  proof (rule nth_equalityI)
    show "length (map version vs) = length [1..<length vs + 1]" by (simp del: upt_Suc)
  next
    fix i assume "i < length (map version vs)"
    then show "map version vs ! i = [1..<length vs + 1] ! i"
      using a by (simp del: upt_Suc)
  qed
  then show "contiguous vs" by (simp add: contiguous_def)
qed

lemma contiguous_snoc:
  "contiguous vs \<Longrightarrow> version v = length vs + 1 \<Longrightarrow> contiguous (vs @ [v])"
  by (simp add: contiguous_def)

lemma contiguous_bound: "contiguous vs \<Longrightarrow> v \<in> set vs \<Longrightarrow> version v \<le> length vs"
  by (auto simp: contiguous_nth in_set_conv_nth)

lemma contiguous_distinct: "contiguous vs \<Longrightarrow> distinct (map version vs)"
  by (simp add: contiguous_def del: upt_Suc)

lemma fold_max_upt: "fold max [Suc 0..<Suc k] 0 = k"
  by (induction k) auto

lemma currentMax_contiguous: "contiguous (versions f) \<Longrightarrow> currentMax f = length (versions f)"
  by (simp add: currentMax_def contiguous_def fold_max_upt del: upt_Suc)

lemma update_first_rel:
  "list_all2 (\<lambda>x y. y = x \<or> (P x \<and> y = g x)) xs (update_first P g xs)"
  by (induction xs) (auto simp: list_all2_refl)

lemma find_Some_set: "find P xs = Some x \<Longrightarrow> x \<in> set xs \<and> P x"
  by (induction xs) (auto split: if_splits)

lemma find_None_names: "find (\<lambda>f. name f = n) fs = None \<longleftrightarrow> n \<notin> name ` set fs"
  by (auto simp: find_None_iff)

lemma find_snoc_new: "\<forall>x\<in>set xs. \<not> P x \<Longrightarrow> P y \<Longrightarrow> find P (xs @ [y]) = Some y"
  by (induction xs) auto

lemma find_distinct:
  "distinct (map g xs) \<Longrightarrow> x \<in> set xs \<Longrightarrow> find (\<lambda>y. g y = g x) xs = Some x"
  by (induction xs) auto

lemma update_first_found:
  "find P xs = Some x \<Longrightarrow> \<exists>ys zs. xs = ys @ x # zs \<and> (\<forall>y\<in>set ys. \<not> P y) \<and> P x
       \<and> update_first P g xs = ys @ g x # zs"
proof (induction xs)
  case Nil then show ?case by simp
next
  case (Cons a xs)
  show ?case
  proof (cases "P a")
    case True
    with Cons.prems have "a = x" by simp
    with True show ?thesis by (intro exI [of _ "[]"] exI [of _ xs]) simp
  next
    case False
    with Cons obtain ys zs where "xs = ys @ x # zs" "\<forall>y\<in>set ys. \<not> P y" "P x"
      "update_first P g xs = ys @ g x # zs" by auto
    with False show ?thesis by (intro exI [of _ "a # ys"] exI [of _ zs]) simp
  qed
qed

lemma find_update_first:
  "find P xs = Some x \<Longrightarrow> P (g x) \<Longrightarrow> find P (update_first P g xs) = Some (g x)"
  by (induction xs) (auto split: if_splits)

section \<open>Appending a version\<close>

lemma push_version_new:
  "find (\<lambda>f. name f = n) fs = None \<Longrightarrow>
   push_version fs n p h by t =
     (fs @ [\<lparr>name = n, versions = [\<lparr>version = 1, path = p, hash = h, uploadedBy = by, uploadedAt = t\<rparr>]\<rparr>], 1)"
  by (simp add: push_version_def)

lemma push_version_existing:
  "find (\<lambda>f. name f = n) fs = Some f \<Longrightarrow>
   push_version fs n p h by t =
     (update_first (\<lambda>f. name f = n)
        (\<lambda>f'. f'\<lparr>versions := versions f' @
           [\<lparr>version = length (versions f) + 1, path = p, hash = h, uploadedBy = by, uploadedAt = t\<rparr>]\<rparr>) fs,
      length (versions f) + 1)"
  by (simp add: push_version_def Let_def)

lemma push_version_find:
  assumes "find (\<lambda>f. name f = n) fs = Some f"
  shows "find (\<lambda>f. name f = n) (fst (push_version fs n p h by t))
           = Some (f\<lparr>versions := versions f @
               [\<lparr>version = length (versions f) + 1, path = p, hash = h, uploadedBy = by, uploadedAt = t\<rparr>]\<rparr>)"
proof -
  have "name f = n" using find_Some_set [OF assms] by simp
  then show ?thesis
    by (simp add: push_version_existing [OF assms] find_update_first [OF assms])
qed

lemma push_version_contiguous:
  assumes "list_all (\<lambda>f. contiguous (versions f)) fs"
  shows "list_all (\<lambda>f. contiguous (versions f)) (fst (push_version fs n p h by t))"
proof (cases "find (\<lambda>f. name f = n) fs")
  case None
  then show ?thesis using assms by (simp add: push_version_new contiguous_def)
next
  case (Some f)
  then obtain ys zs where s: "fs = ys @ f # zs"
    "update_first (\<lambda>f. name f = n)
        (\<lambda>f'. f'\<lparr>versions := versions f' @
           [\<lparr>version = length (versions f) + 1, path = p, hash = h, uploadedBy = by, uploadedAt = t\<rparr>]\<rparr>) fs
     = ys @ f\<lparr>versions := versions f @
           [\<lparr>version = length (versions f) + 1, path = p, hash = h, uploadedBy = by, uploadedAt = t\<rparr>]\<rparr> # zs"
    using update_first_found [OF Some] by blast
  have "contiguous (versions f)" using assms s(1) by simp
  then have "contiguous (versions f @
           [\<lparr>version = length (versions f) + 1, path = p, hash = h, uploadedBy = by, uploadedAt = t\<rparr>])"
    by (rule contiguous_snoc) simp
  moreover have "list_all (\<lambda>f. contiguous (versions f)) ys" "list_all (\<lambda>f. contiguous (versions f)) zs"
    using assms s(1) by simp_all
  moreover have "fst (push_version fs n p h by t) = ys @ f\<lparr>versions := versions f @
           [\<lparr>version = length (versions f) + 1, path = p, hash = h, uploadedBy = by, uploadedAt = t\<rparr>]\<rparr> # zs"
    using s(2) by (simp only: push_version_existing [OF Some] fst_conv)
  ultimately show ?thesis by simp
qed

text \<open>What \<open>push_version\<close> leaves alone, position by position.\<close>

lemma push_version_frame:
  "length fs \<le> length (fst (push_version fs n p h by t))
   \<and> (\<forall>i<length (fst (push_version fs n p h by t)).
        if i < length fs
        then name (fst (push_version fs n p h by t) ! i) = name (fs ! i)
             \<and> prefix (versions (fs ! i)) (versions (fst (push_version fs n p h by t) ! i))
             \<and> (name (fs ! i) \<noteq> n \<longrightarrow> fst (push_version fs n p h by t) ! i = fs ! i)
        else name (fst (push_version fs n p h by t) ! i) = n)"
proof (cases "find (\<lambda>f. name f = n) fs")
  case None
  show ?thesis
    by (auto simp: push_version_new [OF None] nth_append)
next
  case (Some f)
  let ?g = "\<lambda>f'. f'\<lparr>versions := versions f' @
           [\<lparr>version = length (versions f) + 1, path = p, hash = h, uploadedBy = by, uploadedAt = t\<rparr>]\<rparr>"
  have r: "list_all2 (\<lambda>x y. y = x \<or> (name x = n \<and> y = ?g x)) fs (update_first (\<lambda>f. name f = n) ?g fs)"
    by (rule update_first_rel)
  have l: "length (update_first (\<lambda>f. name f = n) ?g fs) = length fs"
    using list_all2_lengthD [OF r] by simp
  have d: "update_first (\<lambda>f. name f = n) ?g fs ! i = fs ! i
      \<or> (name (fs ! i) = n \<and> update_first (\<lambda>f. name f = n) ?g fs ! i = ?g (fs ! i))"
    if "i < length fs" for i
    using list_all2_nthD [OF r that] by blast
  have "name (update_first (\<lambda>f. name f = n) ?g fs ! i) = name (fs ! i)
      \<and> prefix (versions (fs ! i)) (versions (update_first (\<lambda>f. name f = n) ?g fs ! i))
      \<and> (name (fs ! i) \<noteq> n \<longrightarrow> update_first (\<lambda>f. name f = n) ?g fs ! i = fs ! i)"
    if "i < length fs" for i
    using d [OF that] by (elim disjE conjE) simp_all
  then show ?thesis
    unfolding push_version_existing [OF Some] fst_conv l
    by simp
qed

section \<open>The version lists stay contiguous\<close>

lemma upload_versions_ok:
  assumes "versions_ok (loadMetadata s)"
  shows "versions_ok (loadMetadata (snd (upload H u n p t1 t2 s)))"
proof (cases "lock_conflict (loadMetadata s) n u")
  case True
  then show ?thesis using assms by (simp add: upload_conflict)
next
  case False
  show ?thesis
  proof (cases "storage s p")
    case None
    then show ?thesis using assms False
      by (simp add: upload_hash_failure versions_ok_def lockFile_def loadMetadata_def
          saveMetadata_def Let_def)
  next
    case (Some b)
    then show ?thesis using assms False push_version_contiguous
      by (simp add: upload_success versions_ok_def loadMetadata_def)
  qed
qed

lemma reachable_versions_ok:
  "reachable H s0 s \<Longrightarrow> versions_ok (loadMetadata s0) \<Longrightarrow> versions_ok (loadMetadata s)"
proof (induction rule: reachable.induct)
  case start
  then show ?case by simp
next
  case (upload_step s usr n pth t_lock t_up)
  then show ?case by (simp add: upload_versions_ok)
next
  case (unlock_step s usr n)
  then show ?case
    by (simp add: admin_unlock_def versions_ok_def unlockFile_files)
next
  case (storage_step s blobs)
  then show ?case by (simp add: loadMetadata_def)
qed

lemma versions_okD:
  "versions_ok meta \<Longrightarrow> f \<in> set (files meta) \<Longrightarrow> contiguous (versions f)"
  by (simp add: versions_ok_def list_all_iff)

lemma upload_assigns:
  assumes "upload H u n p t1 t2 s = (Uploaded v, s')"
  shows "\<exists>b. storage s p = Some b \<and> storage s' = storage s \<and>
          (case find (\<lambda>f. name f = n) (files (loadMetadata s)) of
             None \<Rightarrow> v = 1 \<and> files (loadMetadata s') = files (loadMetadata s) @
                 [\<lparr>name = n, versions = [\<lparr>version = 1, path = p, hash = H b,
                                          uploadedBy = username u, uploadedAt = t2\<rparr>]\<rparr>]
           | Some f \<Rightarrow> v = length (versions f) + 1 \<and>
               find (\<lambda>f. name f = n) (files (loadMetadata s')) =
                 Some (f\<lparr>versions := versions f @
                   [\<lparr>version = v, path = p, hash = H b,
                     uploadedBy = username u, uploadedAt = t2\<rparr>]\<rparr>))"
proof -
  obtain b where nc: "\<not> lock_conflict (loadMetadata s) n u" and b: "storage s p = Some b"
    using upload_UploadedD [OF assms] by blast
  have v: "v = snd (push_version (files (loadMetadata s)) n p (H b) (username u) t2)"
    and s': "s' = s\<lparr>meta_file := (loadMetadata s)
           \<lparr>files := fst (push_version (files (loadMetadata s)) n p (H b) (username u) t2)\<rparr>\<rparr>"
    using assms by (simp_all add: upload_success [OF nc b])
  have "case find (\<lambda>f. name f = n) (files (loadMetadata s)) of
             None \<Rightarrow> v = 1 \<and> files (loadMetadata s') = files (loadMetadata s) @
                 [\<lparr>name = n, versions = [\<lparr>version = 1, path = p, hash = H b,
                                          uploadedBy = username u, uploadedAt = t2\<rparr>]\<rparr>]
           | Some f \<Rightarrow> v = length (versions f) + 1 \<and>
               find (\<lambda>f. name f = n) (files (loadMetadata s')) =
                 Some (f\<lparr>versions := versions f @
                   [\<lparr>version = v, path = p, hash = H b,
                     uploadedBy = username u, uploadedAt = t2\<rparr>]\<rparr>)"
  proof (cases "find (\<lambda>f. name f = n) (files (loadMetadata s))")
    case None
    then show ?thesis
      by (simp add: v s' push_version_new loadMetadata_def)
  next
    case (Some f)
    have "find (\<lambda>f. name f = n) (files (loadMetadata s')) =
        find (\<lambda>f. name f = n) (fst (push_version (files (loadMetadata s)) n p (H b) (username u) t2))"
      by (simp add: s' loadMetadata_def)
    then have "find (\<lambda>f. name f = n) (files (loadMetadata s')) =
        Some (f\<lparr>versions := versions f @
          [\<lparr>version = length (versions f) + 1, path = p, hash = H b,
            uploadedBy = username u, uploadedAt = t2\<rparr>]\<rparr>)"
      by (simp only: push_version_find [OF Some])
    moreover have "v = length (versions f) + 1"
      by (simp add: v push_version_existing [OF Some])
    ultimately show ?thesis
      using Some by simp
  qed
  then show ?thesis using b by (simp add: s')
qed

section \<open>The scenario: alice uploads \<^verbatim>\<open>spec.txt\<close> twice\<close>

lemma fresh_no_conflict: "\<not> lock_conflict (loadMetadata fresh_disk) ''spec.txt'' alice"
  by (simp add: lock_conflict_def get_property_def Object_prototype_keys_def
      fresh_disk_def loadMetadata_def)

lemma first_upload:
  "upload example_digest alice ''spec.txt'' ''storage/files/7-spec.txt'' 8 9 fresh_disk
     = (Uploaded 1, stored ''olleh'')"
proof -
  have b: "storage fresh_disk ''storage/files/7-spec.txt'' = Some ''hello''"
    by (simp add: fresh_disk_def)
  show ?thesis
    unfolding upload_success [OF fresh_no_conflict b]
    by (simp add: push_version_def fresh_disk_def stored_def loadMetadata_def alice_def
        example_digest_def)
qed

lemma stored_no_conflict: "\<not> lock_conflict (loadMetadata (stored h)) ''spec.txt'' u"
  by (simp add: lock_conflict_def get_property_def Object_prototype_keys_def
      stored_def loadMetadata_def)

text \<open>
  The handler has released the lock when it returns, so the next upload of the name, by
  whichever user, goes through and gets version 2.
\<close>

lemma second_upload:
  "fst (upload example_digest u ''spec.txt'' ''storage/files/7-spec.txt'' 10 11 (stored ''olleh''))
     = Uploaded 2"
proof -
  have b: "storage (stored ''olleh'') ''storage/files/7-spec.txt'' = Some ''hello''"
    by (simp add: stored_def)
  show ?thesis
    unfolding upload_success [OF stored_no_conflict b]
    by (simp add: push_version_def stored_def loadMetadata_def)
qed

text \<open>
  C2. Start from metadata whose version lists are contiguous (the empty metadata is one) and
  let uploads, forced unlocks and changes of the blobs happen in any order. Then in every
  file record the version at index \<open>i\<close> is \<open>i + 1\<close>, and an upload that succeeds now gets
  version 1 and appends a new record when no record has the name, and otherwise gets the
  largest version of the first record of that name plus one and appends to that record.
\<close>

theorem versions_contiguous:
  assumes "versions_ok (loadMetadata s0)" and "reachable H s0 s"
  shows "(\<forall>f\<in>set (files (loadMetadata s)). \<forall>i<length (versions f). version (versions f ! i) = i + 1)
     \<and> (\<forall>u n p t1 t2 v s'. upload H u n p t1 t2 s = (Uploaded v, s') \<longrightarrow>
          (\<exists>b. storage s p = Some b \<and>
            (case find (\<lambda>f. name f = n) (files (loadMetadata s)) of
               None \<Rightarrow> v = 1 \<and> files (loadMetadata s') = files (loadMetadata s) @
                   [\<lparr>name = n, versions = [\<lparr>version = 1, path = p, hash = H b,
                                            uploadedBy = username u, uploadedAt = t2\<rparr>]\<rparr>]
             | Some f \<Rightarrow> v = currentMax f + 1 \<and>
                 find (\<lambda>f. name f = n) (files (loadMetadata s')) =
                   Some (f\<lparr>versions := versions f @
                     [\<lparr>version = v, path = p, hash = H b,
                       uploadedBy = username u, uploadedAt = t2\<rparr>]\<rparr>))))"
proof -
  have ok: "versions_ok (loadMetadata s)"
    using assms by (simp add: reachable_versions_ok)
  have one: "\<forall>f\<in>set (files (loadMetadata s)). \<forall>i<length (versions f). version (versions f ! i) = i + 1"
    using versions_okD [OF ok] contiguous_nth by blast
  have max: "currentMax f = length (versions f)"
    if "find (\<lambda>f. name f = n) (files (loadMetadata s)) = Some f" for f n
    using versions_okD [OF ok] find_Some_set [OF that] by (simp add: currentMax_contiguous)
  have two: "\<exists>b. storage s p = Some b \<and>
            (case find (\<lambda>f. name f = n) (files (loadMetadata s)) of
               None \<Rightarrow> v = 1 \<and> files (loadMetadata s') = files (loadMetadata s) @
                   [\<lparr>name = n, versions = [\<lparr>version = 1, path = p, hash = H b,
                                            uploadedBy = username u, uploadedAt = t2\<rparr>]\<rparr>]
             | Some f \<Rightarrow> v = currentMax f + 1 \<and>
                 find (\<lambda>f. name f = n) (files (loadMetadata s')) =
                   Some (f\<lparr>versions := versions f @
                     [\<lparr>version = v, path = p, hash = H b,
                       uploadedBy = username u, uploadedAt = t2\<rparr>]\<rparr>))"
    if "upload H u n p t1 t2 s = (Uploaded v, s')" for u n p t1 t2 v s'
    using upload_assigns [OF that] max [of n]
    by (cases "find (\<lambda>f. name f = n) (files (loadMetadata s))") auto
  show ?thesis using one two by blast
qed

theorem versions_contiguous_witness:
  "versions_ok (loadMetadata fresh_disk)
   \<and> reachable example_digest fresh_disk (stored ''olleh'')
   \<and> map (\<lambda>f. map version (versions f)) (files (loadMetadata (stored ''olleh''))) = [[1]]
   \<and> fst (upload example_digest alice ''spec.txt'' ''storage/files/7-spec.txt'' 10 11 (stored ''olleh''))
       = Uploaded 2"
proof -
  have a: "versions_ok (loadMetadata fresh_disk)"
    by (simp add: versions_ok_def fresh_disk_def loadMetadata_def)
  have "reachable example_digest fresh_disk
          (snd (upload example_digest alice ''spec.txt'' ''storage/files/7-spec.txt'' 8 9 fresh_disk))"
    by (rule upload_step [OF start])
  then have b: "reachable example_digest fresh_disk (stored ''olleh'')"
    by (simp add: first_upload)
  have c: "files (loadMetadata (stored ''olleh'')) =
      [\<lparr>name = ''spec.txt'',
        versions = [\<lparr>version = 1, path = ''storage/files/7-spec.txt'', hash = ''olleh'',
                     uploadedBy = ''alice'', uploadedAt = 9\<rparr>]\<rparr>]"
    by (simp add: stored_def loadMetadata_def)
  obtain v s' where up:
    "upload example_digest alice ''spec.txt'' ''storage/files/7-spec.txt'' 10 11 (stored ''olleh'')
       = (Uploaded v, s')"
    using second_upload [of alice]
    by (cases "upload example_digest alice ''spec.txt'' ''storage/files/7-spec.txt'' 10 11 (stored ''olleh'')")
      simp
  have "v = currentMax \<lparr>name = ''spec.txt'',
        versions = [\<lparr>version = 1, path = ''storage/files/7-spec.txt'', hash = ''olleh'',
                     uploadedBy = ''alice'', uploadedAt = 9\<rparr>]\<rparr> + 1"
    using versions_contiguous [OF a b, THEN conjunct2, rule_format, OF up]
    by (auto simp: c)
  then have "v = 2"
    by (simp add: currentMax_def)
  then show ?thesis
    using a b c up by simp
qed

section \<open>Uploads of one name that arrive together\<close>

lemma unlocked_no_conflict:
  "locks meta n = None \<Longrightarrow> n \<notin> set Object_prototype_keys \<Longrightarrow> \<not> lock_conflict meta n u"
  by (simp add: lock_conflict_def get_property_def)

lemma upload_unlocked_name:
  assumes l: "locks (loadMetadata s) n = None" and k: "n \<notin> set Object_prototype_keys"
    and b: "storage s p = Some b"
  shows "\<exists>s'. upload H u n p t1 t2 s = (Uploaded (Suc (version_count n s)), s')
           \<and> locks (loadMetadata s') n = None \<and> storage s' = storage s
           \<and> version_count n s' = Suc (version_count n s)"
proof -
  have nc: "\<not> lock_conflict (loadMetadata s) n u"
    using l k by (rule unlocked_no_conflict)
  obtain v s' where up: "upload H u n p t1 t2 s = (Uploaded v, s')"
    using upload_success [OF nc b] by blast
  have lk: "locks (loadMetadata s') n = None"
    using upload_success_locks [OF up] l by simp
  have "storage s' = storage s \<and> v = Suc (version_count n s)
      \<and> version_count n s' = Suc (version_count n s)"
  proof (cases "find (\<lambda>f. name f = n) (files (loadMetadata s))")
    case None
    then have "\<forall>f\<in>set (files (loadMetadata s)). name f \<noteq> n"
      by (simp add: find_None_iff)
    then show ?thesis
      using upload_assigns [OF up] None by (auto simp: version_count_def find_snoc_new)
  next
    case (Some f)
    then show ?thesis
      using upload_assigns [OF up] by (auto simp: version_count_def)
  qed
  then show ?thesis using up lk by blast
qed

lemma serve_uploads_all_succeed:
  assumes "\<forall>r\<in>set rs. req_originalname r = n \<and> storage s (req_path r) \<noteq> None"
    and "locks (loadMetadata s) n = None" and "n \<notin> set Object_prototype_keys"
  shows "fst (serve_uploads H rs s)
           = map Uploaded [Suc (version_count n s)..<Suc (version_count n s) + length rs]
       \<and> locks (loadMetadata (snd (serve_uploads H rs s))) n = None"
  using assms
proof (induction rs arbitrary: s)
  case Nil
  then show ?case by simp
next
  case (Cons r rs)
  obtain b where b: "storage s (req_path r) = Some b" and n: "req_originalname r = n"
    using Cons.prems(1) by auto
  obtain s' where up: "upload H (req_user r) n (req_path r) (req_lock_time r) (req_upload_time r) s
        = (Uploaded (Suc (version_count n s)), s')"
    and l': "locks (loadMetadata s') n = None" and st: "storage s' = storage s"
    and c: "version_count n s' = Suc (version_count n s)"
    using upload_unlocked_name [OF Cons.prems(2,3) b] by blast
  have "\<forall>r\<in>set rs. req_originalname r = n \<and> storage s' (req_path r) \<noteq> None"
    using Cons.prems(1) st by simp
  then have ih: "fst (serve_uploads H rs s')
           = map Uploaded [Suc (version_count n s')..<Suc (version_count n s') + length rs]"
      "locks (loadMetadata (snd (serve_uploads H rs s'))) n = None"
    using Cons.IH [OF _ l' Cons.prems(3)] by simp_all
  have u: "[Suc (version_count n s)..<Suc (version_count n s) + length (r # rs)]
      = Suc (version_count n s) # [Suc (version_count n s')..<Suc (version_count n s') + length rs]"
    by (simp add: c upt_conv_Cons del: upt_Suc)
  have step: "serve_uploads H (r # rs) s
      = (Uploaded (Suc (version_count n s)) # fst (serve_uploads H rs s'), snd (serve_uploads H rs s'))"
    by (simp add: n up split: prod.splits)
  show ?case
    unfolding step u by (simp add: ih del: upt_Suc)
qed

text \<open>
  C4 (as amended). Uploads of one name that arrive together are served one after another.
  When the name has no lock entry and is no property name of \<^verbatim>\<open>Object.prototype\<close>, and the
  blob of every request can be read, then in whatever order they are served every one of
  them succeeds: they get the next version numbers in turn, each once, none is answered
  "File is locked", and the name is unlocked at the end.
\<close>

theorem concurrent_uploads_all_succeed:
  assumes "\<forall>r\<in>set rs. req_originalname r = n \<and> storage s (req_path r) \<noteq> None"
    and "locks (loadMetadata s) n = None" and "n \<notin> set Object_prototype_keys"
  shows "fst (serve_uploads H rs s)
           = map Uploaded [Suc (version_count n s)..<Suc (version_count n s) + length rs]
       \<and> Json_message 423 ''File is locked'' \<notin> set (fst (serve_uploads H rs s))
       \<and> locks (loadMetadata (snd (serve_uploads H rs s))) n = None"
proof -
  note a = serve_uploads_all_succeed [OF assms, of H]
  have "Json_message 423 ''File is locked'' \<notin> set (fst (serve_uploads H rs s))"
    unfolding a [THEN conjunct1] by auto
  then show ?thesis using a by simp
qed

lemma busy_requests:
  "\<forall>r\<in>set [by_alice, by_bob].
     req_originalname r = ''spec.txt'' \<and> storage busy_disk (req_path r) \<noteq> None"
  by (simp add: by_alice_def by_bob_def busy_disk_def)

lemma busy_requests_swapped:
  "\<forall>r\<in>set [by_bob, by_alice].
     req_originalname r = ''spec.txt'' \<and> storage busy_disk (req_path r) \<noteq> None"
  by (simp add: by_alice_def by_bob_def busy_disk_def)

lemma busy_unlocked: "locks (loadMetadata busy_disk) ''spec.txt'' = None"
  by (simp add: busy_disk_def loadMetadata_def)

lemma spec_txt_no_key: "''spec.txt'' \<notin> set Object_prototype_keys"
  by (simp add: Object_prototype_keys_def)

lemma busy_count: "version_count ''spec.txt'' busy_disk = 1"
  by (simp add: version_count_def busy_disk_def loadMetadata_def)

lemma upt_2_4: "[Suc 1..<Suc 1 + length [x, y]] = [2, 3]"
  by (simp add: upt_conv_Cons del: upt_Suc)

theorem concurrent_uploads_all_succeed_witness:
  "req_originalname by_alice = ''spec.txt'' \<and> req_originalname by_bob = ''spec.txt''
   \<and> username (req_user by_alice) \<noteq> username (req_user by_bob)
   \<and> locks (loadMetadata busy_disk) ''spec.txt'' = None
   \<and> ''spec.txt'' \<notin> set Object_prototype_keys
   \<and> fst (serve_uploads example_digest [by_alice, by_bob] busy_disk) = [Uploaded 2, Uploaded 3]
   \<and> locks (loadMetadata (snd (serve_uploads example_digest [by_alice, by_bob] busy_disk))) ''spec.txt''
       = None"
proof -
  note t = concurrent_uploads_all_succeed [OF busy_requests busy_unlocked spec_txt_no_key,
      of example_digest]
  have 1: "fst (serve_uploads example_digest [by_alice, by_bob] busy_disk) = [Uploaded 2, Uploaded 3]"
    using t [THEN conjunct1] unfolding busy_count upt_2_4 by simp
  have 2: "locks (loadMetadata (snd (serve_uploads example_digest [by_alice, by_bob] busy_disk)))
      ''spec.txt'' = None"
    using t [THEN conjunct2, THEN conjunct2] .
  have 3: "req_originalname by_alice = ''spec.txt''" "req_originalname by_bob = ''spec.txt''"
    "username (req_user by_alice) \<noteq> username (req_user by_bob)"
    by (simp_all add: by_alice_def by_bob_def alice_def bob_def)
  from 3 busy_unlocked spec_txt_no_key 1 2 show ?thesis by (intro conjI)
qed

text \<open>
  C4 as stated fails: alice and bob upload \<^verbatim>\<open>spec.txt\<close> together, and in either order both
  succeed, where the claim has one of them answered "File is locked".
\<close>

theorem concurrent_uploads_both_succeed:
  "username (req_user by_alice) \<noteq> username (req_user by_bob)
   \<and> req_originalname by_alice = req_originalname by_bob
   \<and> fst (serve_uploads example_digest [by_alice, by_bob] busy_disk) = [Uploaded 2, Uploaded 3]
   \<and> fst (serve_uploads example_digest [by_bob, by_alice] busy_disk) = [Uploaded 2, Uploaded 3]"
proof -
  have 1: "fst (serve_uploads example_digest [by_alice, by_bob] busy_disk) = [Uploaded 2, Uploaded 3]"
    using serve_uploads_all_succeed [OF busy_requests busy_unlocked spec_txt_no_key,
        of example_digest, THEN conjunct1]
    unfolding busy_count upt_2_4 by simp
  have 2: "fst (serve_uploads example_digest [by_bob, by_alice] busy_disk) = [Uploaded 2, Uploaded 3]"
    using serve_uploads_all_succeed [OF busy_requests_swapped busy_unlocked spec_txt_no_key,
        of example_digest, THEN conjunct1]
    unfolding busy_count upt_2_4 by simp
  have 3: "username (req_user by_alice) \<noteq> username (req_user by_bob)"
    "req_originalname by_alice = req_originalname by_bob"
    by (simp_all add: by_alice_def by_bob_def alice_def bob_def)
  from 3 1 2 show ?thesis by (intro conjI)
qed

section \<open>What an upload leaves alone\<close>

text \<open>
  C10. A successful upload of \<open>n\<close> leaves the lock entry of every other name as it was; no
  record disappears or moves; a record at an old position keeps its name and its old
  versions as a prefix of its new ones, and is unchanged when its name is not \<open>n\<close>; a record
  at a new position has the name \<open>n\<close>.
\<close>

theorem upload_frame:
  assumes "upload H u n p t1 t2 s = (Uploaded v, s')"
  shows "(\<forall>k. k \<noteq> n \<longrightarrow> locks (loadMetadata s') k = locks (loadMetadata s) k)
     \<and> length (files (loadMetadata s)) \<le> length (files (loadMetadata s'))
     \<and> (\<forall>i<length (files (loadMetadata s')).
          if i < length (files (loadMetadata s))
          then name (files (loadMetadata s') ! i) = name (files (loadMetadata s) ! i)
               \<and> prefix (versions (files (loadMetadata s) ! i)) (versions (files (loadMetadata s') ! i))
               \<and> (name (files (loadMetadata s) ! i) \<noteq> n \<longrightarrow>
                    files (loadMetadata s') ! i = files (loadMetadata s) ! i)
          else name (files (loadMetadata s') ! i) = n)"
proof -
  obtain b where nc: "\<not> lock_conflict (loadMetadata s) n u" and b: "storage s p = Some b"
    using upload_UploadedD [OF assms] by blast
  have "files (loadMetadata s') = fst (push_version (files (loadMetadata s)) n p (H b) (username u) t2)"
    using assms by (auto simp: upload_success [OF nc b] loadMetadata_def)
  then show ?thesis
    using push_version_frame [of "files (loadMetadata s)" n p "H b" "username u" t2]
      upload_success_locks [OF assms]
    by simp
qed

theorem upload_frame_witness:
  "fst (upload example_digest alice ''spec.txt'' ''storage/files/12-spec.txt'' 13 14 busy_disk)
     = Uploaded 2
   \<and> locks (loadMetadata busy_disk) ''notes.md'' = Some \<lparr>lockedBy = ''bob'', lockedAt = 3\<rparr>
   \<and> locks (loadMetadata
         (snd (upload example_digest alice ''spec.txt'' ''storage/files/12-spec.txt'' 13 14 busy_disk)))
         ''notes.md''
       = Some \<lparr>lockedBy = ''bob'', lockedAt = 3\<rparr>
   \<and> files (loadMetadata busy_disk) ! 0
       = \<lparr>name = ''notes.md'',
          versions = [\<lparr>version = 1, path = ''storage/files/2-notes.md'', hash = ''seton'',
                       uploadedBy = ''bob'', uploadedAt = 2\<rparr>]\<rparr>
   \<and> files (loadMetadata
         (snd (upload example_digest alice ''spec.txt'' ''storage/files/12-spec.txt'' 13 14 busy_disk)))
         ! 0
       = \<lparr>name = ''notes.md'',
          versions = [\<lparr>version = 1, path = ''storage/files/2-notes.md'', hash = ''seton'',
                       uploadedBy = ''bob'', uploadedAt = 2\<rparr>]\<rparr>
   \<and> versions (files (loadMetadata busy_disk) ! 1)
       = [\<lparr>version = 1, path = ''storage/files/7-spec.txt'', hash = ''olleh'',
            uploadedBy = ''alice'', uploadedAt = 9\<rparr>]
   \<and> prefix [\<lparr>version = 1, path = ''storage/files/7-spec.txt'', hash = ''olleh'',
                uploadedBy = ''alice'', uploadedAt = 9\<rparr>]
        (versions (files (loadMetadata
          (snd (upload example_digest alice ''spec.txt'' ''storage/files/12-spec.txt'' 13 14 busy_disk)))
          ! 1))"
proof -
  define s' where
    "s' = snd (upload example_digest alice ''spec.txt'' ''storage/files/12-spec.txt'' 13 14 busy_disk)"
  have b: "storage busy_disk ''storage/files/12-spec.txt'' = Some ''hello again''"
    by (simp add: busy_disk_def)
  obtain s1 where "upload example_digest alice ''spec.txt'' ''storage/files/12-spec.txt'' 13 14 busy_disk
      = (Uploaded (Suc (version_count ''spec.txt'' busy_disk)), s1)"
    using upload_unlocked_name [OF busy_unlocked spec_txt_no_key b] by blast
  then have up: "upload example_digest alice ''spec.txt'' ''storage/files/12-spec.txt'' 13 14 busy_disk
      = (Uploaded 2, s')"
    by (simp add: s'_def busy_count)
  have l0: "locks (loadMetadata busy_disk) ''notes.md'' = Some \<lparr>lockedBy = ''bob'', lockedAt = 3\<rparr>"
    by (simp add: busy_disk_def loadMetadata_def)
  have f0: "files (loadMetadata busy_disk) ! 0
       = \<lparr>name = ''notes.md'',
          versions = [\<lparr>version = 1, path = ''storage/files/2-notes.md'', hash = ''seton'',
                       uploadedBy = ''bob'', uploadedAt = 2\<rparr>]\<rparr>"
    by (simp add: busy_disk_def loadMetadata_def)
  have f1: "versions (files (loadMetadata busy_disk) ! 1)
       = [\<lparr>version = 1, path = ''storage/files/7-spec.txt'', hash = ''olleh'',
            uploadedBy = ''alice'', uploadedAt = 9\<rparr>]"
    by (simp add: busy_disk_def loadMetadata_def)
  have len: "length (files (loadMetadata busy_disk)) = 2"
    by (simp add: busy_disk_def loadMetadata_def)
  have ne: "''notes.md'' \<noteq> ''spec.txt''"
    by simp
  have l1: "locks (loadMetadata s') ''notes.md'' = locks (loadMetadata busy_disk) ''notes.md''"
    using upload_frame [OF up, THEN conjunct1, rule_format, OF ne] .
  have len': "length (files (loadMetadata busy_disk)) \<le> length (files (loadMetadata s'))"
    using upload_frame [OF up, THEN conjunct2, THEN conjunct1] .
  have i0: "0 < length (files (loadMetadata s'))" and i1: "1 < length (files (loadMetadata s'))"
    using len len' by auto
  have n0: "name (files (loadMetadata busy_disk) ! 0) \<noteq> ''spec.txt''"
    by (simp add: f0)
  have "files (loadMetadata s') ! 0 = files (loadMetadata busy_disk) ! 0"
    using upload_frame [OF up, THEN conjunct2, THEN conjunct2, rule_format, OF i0] n0
    by (simp add: len)
  then have g0: "files (loadMetadata s') ! 0
       = \<lparr>name = ''notes.md'',
          versions = [\<lparr>version = 1, path = ''storage/files/2-notes.md'', hash = ''seton'',
                       uploadedBy = ''bob'', uploadedAt = 2\<rparr>]\<rparr>"
    by (simp only: f0)
  have "prefix (versions (files (loadMetadata busy_disk) ! 1)) (versions (files (loadMetadata s') ! 1))"
    using upload_frame [OF up, THEN conjunct2, THEN conjunct2, rule_format, OF i1]
    by (simp add: len)
  then have g1: "prefix [\<lparr>version = 1, path = ''storage/files/7-spec.txt'', hash = ''olleh'',
                uploadedBy = ''alice'', uploadedAt = 9\<rparr>]
        (versions (files (loadMetadata s') ! 1))"
    by (simp only: f1)
  have u: "fst (upload example_digest alice ''spec.txt'' ''storage/files/12-spec.txt'' 13 14 busy_disk)
     = Uploaded 2"
    by (simp add: up)
  have l2: "locks (loadMetadata s') ''notes.md'' = Some \<lparr>lockedBy = ''bob'', lockedAt = 3\<rparr>"
    by (simp only: l1 l0)
  from u l0 l2 f0 g0 f1 g1 show ?thesis
    unfolding s'_def by (intro conjI)
qed

section \<open>Integrity check\<close>

lemma verify_found:
  "find (\<lambda>f. name f = n) (files (loadMetadata s)) = Some f \<Longrightarrow>
   find (\<lambda>v. version v = k) (versions f) = Some v \<Longrightarrow>
   verify H n k s =
     (case storage s (path v) of
        None \<Rightarrow> (Uncaught_exception, s)
      | Some b \<Rightarrow> (Verify_json (hash v) (H b) (hash v = H b), s))"
  by (simp add: verify_def generateHash_def split: option.splits)

lemma verify_state: "snd (verify H n k s) = s"
  by (simp add: verify_def Let_def split: option.splits)

lemma upload_new_record:
  assumes ok: "versions_ok (loadMetadata s)"
    and up: "upload H u n p t1 t2 s = (Uploaded v, s')"
    and b: "storage s p = Some b"
  shows "\<exists>f'. find (\<lambda>f. name f = n) (files (loadMetadata s')) = Some f' \<and>
           find (\<lambda>r. version r = v) (versions f')
             = Some \<lparr>version = v, path = p, hash = H b, uploadedBy = username u, uploadedAt = t2\<rparr>"
proof (cases "find (\<lambda>f. name f = n) (files (loadMetadata s))")
  case None
  then have "\<forall>f\<in>set (files (loadMetadata s)). name f \<noteq> n"
    by (simp add: find_None_iff)
  then show ?thesis
    using upload_assigns [OF up] None b by (simp add: find_snoc_new)
next
  case (Some f)
  have "contiguous (versions f)"
    using versions_okD [OF ok] find_Some_set [OF Some] by simp
  then have "\<forall>r\<in>set (versions f). version r \<noteq> length (versions f) + 1"
    using contiguous_bound by fastforce
  then show ?thesis
    using upload_assigns [OF up] Some b by (simp add: find_snoc_new)
qed

text \<open>
  C5 (as amended). For a version record \<open>v\<close> of the first file record named \<open>n\<close>, whose
  version numbers are distinct: when the blob at \<open>path v\<close> can be read, \<open>verify\<close> hashes it
  and answers the stored hash, the recomputed one, and whether they are equal; when it
  cannot be read, the handler throws and answers none of them. It never changes the disk.
  So after a successful upload the verification of the new version answers valid, and
  after the blob's bytes were replaced by bytes of another digest it answers invalid, with
  the stored hash as before.
\<close>

theorem verify_correct:
  "(find (\<lambda>f. name f = n) (files (loadMetadata s)) = Some f \<longrightarrow> v \<in> set (versions f) \<longrightarrow>
      distinct (map version (versions f)) \<longrightarrow>
      verify H n (version v) s =
        (case storage s (path v) of
           None \<Rightarrow> (Uncaught_exception, s)
         | Some b \<Rightarrow> (Verify_json (hash v) (H b) (hash v = H b), s)))
   \<and> snd (verify H n k s) = s
   \<and> (versions_ok (loadMetadata s) \<longrightarrow> upload H u n p t1 t2 s = (Uploaded k, s') \<longrightarrow>
        storage s p = Some b \<longrightarrow>
        verify H n k s' = (Verify_json (H b) (H b) True, s')
        \<and> (\<forall>b'. H b' \<noteq> H b \<longrightarrow>
              verify H n k (s'\<lparr>storage := (storage s')(p \<mapsto> b')\<rparr>)
                = (Verify_json (H b) (H b') False, s'\<lparr>storage := (storage s')(p \<mapsto> b')\<rparr>)))"
proof (intro conjI impI allI)
  assume "find (\<lambda>f. name f = n) (files (loadMetadata s)) = Some f" "v \<in> set (versions f)"
    "distinct (map version (versions f))"
  then show "verify H n (version v) s =
        (case storage s (path v) of
           None \<Rightarrow> (Uncaught_exception, s)
         | Some b \<Rightarrow> (Verify_json (hash v) (H b) (hash v = H b), s))"
    by (simp add: verify_found find_distinct)
next
  show "snd (verify H n k s) = s" by (rule verify_state)
next
  assume ok: "versions_ok (loadMetadata s)" and up: "upload H u n p t1 t2 s = (Uploaded k, s')"
    and b: "storage s p = Some b"
  obtain f' where f': "find (\<lambda>f. name f = n) (files (loadMetadata s')) = Some f'"
    "find (\<lambda>r. version r = k) (versions f')
       = Some \<lparr>version = k, path = p, hash = H b, uploadedBy = username u, uploadedAt = t2\<rparr>"
    using upload_new_record [OF ok up b] by blast
  have st: "storage s' p = Some b"
    using upload_assigns [OF up] b by auto
  show "verify H n k s' = (Verify_json (H b) (H b) True, s')"
    by (simp add: verify_found [OF f'] st)
  fix b' assume "H b' \<noteq> H b"
  moreover have "find (\<lambda>f. name f = n) (files (loadMetadata (s'\<lparr>storage := (storage s')(p \<mapsto> b')\<rparr>))) = Some f'"
    using f'(1) by (simp add: loadMetadata_def)
  ultimately show "verify H n k (s'\<lparr>storage := (storage s')(p \<mapsto> b')\<rparr>)
                = (Verify_json (H b) (H b') False, s'\<lparr>storage := (storage s')(p \<mapsto> b')\<rparr>)"
    by (simp add: verify_found [OF _ f'(2)])
qed

theorem verify_correct_witness:
  "find (\<lambda>f. name f = ''spec.txt'') (files (loadMetadata (stored ''olleh'')))
       = Some \<lparr>name = ''spec.txt'',
               versions = [\<lparr>version = 1, path = ''storage/files/7-spec.txt'', hash = ''olleh'',
                            uploadedBy = ''alice'', uploadedAt = 9\<rparr>]\<rparr>
   \<and> distinct (map version [\<lparr>version = 1, path = ''storage/files/7-spec.txt'', hash = ''olleh'',
                            uploadedBy = ''alice'', uploadedAt = 9\<rparr>])
   \<and> verify example_digest ''spec.txt'' 1 (stored ''olleh'')
       = (Verify_json ''olleh'' ''olleh'' True, stored ''olleh'')
   \<and> versions_ok (loadMetadata fresh_disk)
   \<and> upload example_digest alice ''spec.txt'' ''storage/files/7-spec.txt'' 8 9 fresh_disk
       = (Uploaded 1, stored ''olleh'')
   \<and> storage fresh_disk ''storage/files/7-spec.txt'' = Some ''hello''
   \<and> example_digest ''help'' \<noteq> example_digest ''hello''
   \<and> fst (verify example_digest ''spec.txt'' 1
        ((stored ''olleh'')\<lparr>storage := (storage (stored ''olleh''))(''storage/files/7-spec.txt'' \<mapsto> ''help'')\<rparr>))
       = Verify_json ''olleh'' ''pleh'' False"
proof -
  let ?r = "\<lparr>version = 1, path = ''storage/files/7-spec.txt'', hash = ''olleh'',
              uploadedBy = ''alice'', uploadedAt = 9\<rparr>"
  have f: "find (\<lambda>f. name f = ''spec.txt'') (files (loadMetadata (stored ''olleh'')))
       = Some \<lparr>name = ''spec.txt'', versions = [?r]\<rparr>"
    by (simp add: stored_def loadMetadata_def)
  have m: "?r \<in> set (versions \<lparr>name = ''spec.txt'', versions = [?r]\<rparr>)"
    by simp
  have d: "distinct (map version (versions \<lparr>name = ''spec.txt'', versions = [?r]\<rparr>))"
    by simp
  have st: "storage (stored ''olleh'') ''storage/files/7-spec.txt'' = Some ''hello''"
    by (simp add: stored_def)
  have dg: "example_digest ''hello'' = ''olleh''" "example_digest ''help'' = ''pleh''"
    by (simp_all add: example_digest_def)
  have one: "verify example_digest ''spec.txt'' 1 (stored ''olleh'')
       = (Verify_json ''olleh'' ''olleh'' True, stored ''olleh'')"
    using verify_correct [of "''spec.txt''" "stored ''olleh''" "\<lparr>name = ''spec.txt'', versions = [?r]\<rparr>" ?r
        example_digest, THEN conjunct1, rule_format, OF f m d]
    by (simp add: st dg)
  have a: "versions_ok (loadMetadata fresh_disk)"
    by (simp add: versions_ok_def fresh_disk_def loadMetadata_def)
  have b: "storage fresh_disk ''storage/files/7-spec.txt'' = Some ''hello''"
    by (simp add: fresh_disk_def)
  have c: "example_digest ''help'' \<noteq> example_digest ''hello''"
    by (simp add: dg)
  have two: "verify example_digest ''spec.txt'' 1
        ((stored ''olleh'')\<lparr>storage := (storage (stored ''olleh''))(''storage/files/7-spec.txt'' \<mapsto> ''help'')\<rparr>)
       = (Verify_json (example_digest ''hello'') (example_digest ''help'') False,
          (stored ''olleh'')\<lparr>storage := (storage (stored ''olleh''))(''storage/files/7-spec.txt'' \<mapsto> ''help'')\<rparr>)"
    using verify_correct [of "''spec.txt''" fresh_disk _ _ example_digest 1 alice
        "''storage/files/7-spec.txt''" 8 9 "stored ''olleh''" "''hello''",
        THEN conjunct2, THEN conjunct2, rule_format, OF a first_upload b, THEN conjunct2,
        rule_format, OF c] .
  have three: "fst (verify example_digest ''spec.txt'' 1
        ((stored ''olleh'')\<lparr>storage := (storage (stored ''olleh''))(''storage/files/7-spec.txt'' \<mapsto> ''help'')\<rparr>))
       = Verify_json ''olleh'' ''pleh'' False"
    by (simp only: two fst_conv dg)
  have dd: "distinct (map version [?r])"
    by simp
  from f dd one a first_upload b c three show ?thesis
    by (intro conjI)
qed

text \<open>
  C5 as stated fails: after the upload of \<^verbatim>\<open>spec.txt\<close> its version 1 is a stored record of
  an existing file; once the blob is gone from the storage directory, \<open>verify\<close> throws
  and answers neither hash.
\<close>

theorem verify_unreadable_blob:
  "reachable example_digest fresh_disk ((stored ''olleh'')\<lparr>storage := Map.empty\<rparr>)
   \<and> files (loadMetadata ((stored ''olleh'')\<lparr>storage := Map.empty\<rparr>))
       = [\<lparr>name = ''spec.txt'',
            versions = [\<lparr>version = 1, path = ''storage/files/7-spec.txt'', hash = ''olleh'',
                         uploadedBy = ''alice'', uploadedAt = 9\<rparr>]\<rparr>]
   \<and> verify example_digest ''spec.txt'' 1 ((stored ''olleh'')\<lparr>storage := Map.empty\<rparr>)
       = (Uncaught_exception, (stored ''olleh'')\<lparr>storage := Map.empty\<rparr>)"
proof -
  have "reachable example_digest fresh_disk
          (snd (upload example_digest alice ''spec.txt'' ''storage/files/7-spec.txt'' 8 9 fresh_disk))"
    by (rule upload_step [OF start])
  then have "reachable example_digest fresh_disk (stored ''olleh'')"
    by (simp add: first_upload)
  then have r: "reachable example_digest fresh_disk ((stored ''olleh'')\<lparr>storage := Map.empty\<rparr>)"
    by (rule storage_step)
  have f: "files (loadMetadata ((stored ''olleh'')\<lparr>storage := Map.empty\<rparr>))
       = [\<lparr>name = ''spec.txt'',
            versions = [\<lparr>version = 1, path = ''storage/files/7-spec.txt'', hash = ''olleh'',
                         uploadedBy = ''alice'', uploadedAt = 9\<rparr>]\<rparr>]"
    by (simp add: stored_def loadMetadata_def)
  have v: "verify example_digest ''spec.txt'' 1 ((stored ''olleh'')\<lparr>storage := Map.empty\<rparr>)
       = (Uncaught_exception, (stored ''olleh'')\<lparr>storage := Map.empty\<rparr>)"
    by (simp add: verify_def f generateHash_def)
  from r f v show ?thesis by (intro conjI)
qed

section \<open>Listing versions and downloading\<close>

text \<open>
  C8. \<open>listVersions\<close> answers 404 "Not found" exactly when no file record has the name, and
  otherwise the versions of the first record of that name. \<open>download\<close> answers 404
  "Not found" when no record has the name, 404 "Version not found" when the record has no
  version of that number, and otherwise sends the file at the path of the first version
  record with that number. Neither changes the disk.
\<close>

theorem list_and_download:
  "(fst (listVersions n s) = Json_message 404 ''Not found'' \<longleftrightarrow> n \<notin> name ` set (files (loadMetadata s)))
   \<and> (\<forall>f. find (\<lambda>f. name f = n) (files (loadMetadata s)) = Some f \<longrightarrow>
          fst (listVersions n s) = Json_versions (versions f))
   \<and> snd (listVersions n s) = s
   \<and> (n \<notin> name ` set (files (loadMetadata s)) \<longrightarrow>
          fst (download n k s) = Json_message 404 ''Not found'')
   \<and> (\<forall>f. find (\<lambda>f. name f = n) (files (loadMetadata s)) = Some f \<longrightarrow>
          (k \<notin> version ` set (versions f) \<longrightarrow>
             fst (download n k s) = Json_message 404 ''Version not found'')
        \<and> (\<forall>v. find (\<lambda>v. version v = k) (versions f) = Some v \<longrightarrow>
             v \<in> set (versions f) \<and> version v = k \<and> fst (download n k s) = Download (path v)))
   \<and> snd (download n k s) = s"
proof -
  have none: "find (\<lambda>f. name f = n) fs = None \<longleftrightarrow> n \<notin> name ` set fs" for fs
    by (rule find_None_names)
  have vnone: "find (\<lambda>v. version v = k) vs = None \<longleftrightarrow> k \<notin> version ` set vs" for vs
    by (auto simp: find_None_iff)
  have 1: "fst (listVersions n s) = Json_message 404 ''Not found'' \<longleftrightarrow> n \<notin> name ` set (files (loadMetadata s))"
    unfolding none [symmetric] by (simp add: listVersions_def split: option.splits)
  have 2: "\<forall>f. find (\<lambda>f. name f = n) (files (loadMetadata s)) = Some f \<longrightarrow>
          fst (listVersions n s) = Json_versions (versions f)"
    by (simp add: listVersions_def)
  have 3: "snd (listVersions n s) = s"
    by (simp add: listVersions_def split: option.splits)
  have 4: "n \<notin> name ` set (files (loadMetadata s)) \<longrightarrow>
          fst (download n k s) = Json_message 404 ''Not found''"
    unfolding none [symmetric] by (simp add: download_def)
  have 5: "fst (download n k s) = Json_message 404 ''Version not found''"
    if "find (\<lambda>f. name f = n) (files (loadMetadata s)) = Some f" "k \<notin> version ` set (versions f)" for f
    using that unfolding vnone [symmetric] by (simp add: download_def)
  have 6: "v \<in> set (versions f) \<and> version v = k \<and> fst (download n k s) = Download (path v)"
    if "find (\<lambda>f. name f = n) (files (loadMetadata s)) = Some f"
      "find (\<lambda>v. version v = k) (versions f) = Some v" for f v
    using that find_Some_set [OF that(2)] by (simp add: download_def)
  have 56: "\<forall>f. find (\<lambda>f. name f = n) (files (loadMetadata s)) = Some f \<longrightarrow>
          (k \<notin> version ` set (versions f) \<longrightarrow>
             fst (download n k s) = Json_message 404 ''Version not found'')
        \<and> (\<forall>v. find (\<lambda>v. version v = k) (versions f) = Some v \<longrightarrow>
             v \<in> set (versions f) \<and> version v = k \<and> fst (download n k s) = Download (path v))"
  proof (intro allI impI conjI)
    fix f
    assume "find (\<lambda>f. name f = n) (files (loadMetadata s)) = Some f" "k \<notin> version ` set (versions f)"
    then show "fst (download n k s) = Json_message 404 ''Version not found''"
      by (rule 5)
  next
    fix f v
    assume a: "find (\<lambda>f. name f = n) (files (loadMetadata s)) = Some f"
      "find (\<lambda>v. version v = k) (versions f) = Some v"
    show "v \<in> set (versions f)" using 6 [OF a] by (elim conjE)
    show "version v = k" using 6 [OF a] by (elim conjE)
    show "fst (download n k s) = Download (path v)" using 6 [OF a] by (elim conjE)
  qed
  have 7: "snd (download n k s) = s"
    by (simp add: download_def split: option.splits)
  from 1 2 3 4 56 7 show ?thesis
    by (intro conjI)
qed

theorem list_and_download_witness:
  "''a.txt'' \<notin> name ` set (files (loadMetadata (stored ''olleh'')))
   \<and> fst (listVersions ''a.txt'' (stored ''olleh'')) = Json_message 404 ''Not found''
   \<and> fst (download ''a.txt'' 1 (stored ''olleh'')) = Json_message 404 ''Not found''
   \<and> find (\<lambda>f. name f = ''spec.txt'') (files (loadMetadata (stored ''olleh'')))
       = Some \<lparr>name = ''spec.txt'',
               versions = [\<lparr>version = 1, path = ''storage/files/7-spec.txt'', hash = ''olleh'',
                            uploadedBy = ''alice'', uploadedAt = 9\<rparr>]\<rparr>
   \<and> fst (listVersions ''spec.txt'' (stored ''olleh''))
       = Json_versions [\<lparr>version = 1, path = ''storage/files/7-spec.txt'', hash = ''olleh'',
                          uploadedBy = ''alice'', uploadedAt = 9\<rparr>]
   \<and> fst (download ''spec.txt'' 2 (stored ''olleh'')) = Json_message 404 ''Version not found''
   \<and> fst (download ''spec.txt'' 1 (stored ''olleh'')) = Download ''storage/files/7-spec.txt''"
proof -
  let ?r = "\<lparr>version = 1, path = ''storage/files/7-spec.txt'', hash = ''olleh'',
              uploadedBy = ''alice'', uploadedAt = 9\<rparr>"
  let ?f = "\<lparr>name = ''spec.txt'', versions = [?r]\<rparr>"
  have a: "''a.txt'' \<notin> name ` set (files (loadMetadata (stored ''olleh'')))"
    by (simp add: stored_def loadMetadata_def)
  have f: "find (\<lambda>f. name f = ''spec.txt'') (files (loadMetadata (stored ''olleh''))) = Some ?f"
    by (simp add: stored_def loadMetadata_def)
  have k2: "2 \<notin> version ` set (versions ?f)"
    by simp
  have k1: "find (\<lambda>v. version v = 1) (versions ?f) = Some ?r"
    by simp
  note A = list_and_download [of "''a.txt''" "stored ''olleh''" 1]
  note B = list_and_download [of "''spec.txt''" "stored ''olleh''" 2]
  note C = list_and_download [of "''spec.txt''" "stored ''olleh''" 1]
  have r1: "fst (listVersions ''a.txt'' (stored ''olleh'')) = Json_message 404 ''Not found''"
    using A [THEN conjunct1] a by (rule iffD2)
  have r2: "fst (download ''a.txt'' 1 (stored ''olleh'')) = Json_message 404 ''Not found''"
    using A [THEN conjunct2, THEN conjunct2, THEN conjunct2, THEN conjunct1, rule_format, OF a] .
  have r3: "fst (listVersions ''spec.txt'' (stored ''olleh'')) = Json_versions (versions ?f)"
    using B [THEN conjunct2, THEN conjunct1, rule_format, OF f] .
  have r4: "fst (download ''spec.txt'' 2 (stored ''olleh'')) = Json_message 404 ''Version not found''"
    using B [THEN conjunct2, THEN conjunct2, THEN conjunct2, THEN conjunct2, THEN conjunct1,
        rule_format, OF f, THEN conjunct1, rule_format, OF k2] .
  have r5: "fst (download ''spec.txt'' 1 (stored ''olleh'')) = Download (path ?r)"
    using C [THEN conjunct2, THEN conjunct2, THEN conjunct2, THEN conjunct2, THEN conjunct1,
        rule_format, OF f, THEN conjunct2, rule_format, OF k1]
    by (elim conjE)
  have r3': "fst (listVersions ''spec.txt'' (stored ''olleh'')) = Json_versions [?r]"
    using r3 by simp
  have r5': "fst (download ''spec.txt'' 1 (stored ''olleh'')) = Download ''storage/files/7-spec.txt''"
    using r5 by simp
  from a r1 r2 f r3' r4 r5' show ?thesis by (intro conjI)
qed

section \<open>Listing the files\<close>

lemma map_update_first: "(\<And>x. h (g x) = h x) \<Longrightarrow> map h (update_first P g xs) = map h xs"
  by (induction xs) auto

lemma upload_names:
  assumes up: "upload H u n p t1 t2 s = (Uploaded v, s')"
  shows "map name (files (loadMetadata s')) =
          (if n \<in> name ` set (files (loadMetadata s)) then map name (files (loadMetadata s))
           else map name (files (loadMetadata s)) @ [n])"
proof (cases "find (\<lambda>f. name f = n) (files (loadMetadata s))")
  case None
  then have "n \<notin> name ` set (files (loadMetadata s))"
    by (simp add: find_None_names)
  moreover have "map name (files (loadMetadata s')) = map name (files (loadMetadata s)) @ [n]"
    using upload_assigns [OF up] None by auto
  ultimately show ?thesis by simp
next
  case (Some f)
  have n: "n \<in> name ` set (files (loadMetadata s))"
    using find_Some_set [OF Some] by auto
  obtain b where nc: "\<not> lock_conflict (loadMetadata s) n u" and b: "storage s p = Some b"
    using upload_UploadedD [OF up] by blast
  have "files (loadMetadata s') = fst (push_version (files (loadMetadata s)) n p (H b) (username u) t2)"
    using up by (auto simp: upload_success [OF nc b] loadMetadata_def)
  then have "map name (files (loadMetadata s')) = map name (files (loadMetadata s))"
    by (simp add: push_version_existing [OF Some] map_update_first)
  then show ?thesis
    using n by simp
qed

text \<open>
  C9 (as amended). \<open>listFiles\<close> answers the whole file records, each with all of its version
  records, in the order of the metadata file; the name and version count of the
  specification are what \<open>listFiles_spec\<close> reads off them. The order is the order of
  insertion: a successful upload of a known name keeps the names as they are, and one of
  an unknown name puts it last.
\<close>

theorem listFiles_whole_records:
  "listFiles s = (Json_files (files (loadMetadata s)), s)
   \<and> listFiles_spec s = map (\<lambda>f. (name f, length (versions f))) (files (loadMetadata s))
   \<and> (\<forall>H u n p t1 t2 v s'. upload H u n p t1 t2 s = (Uploaded v, s') \<longrightarrow>
        map name (files (loadMetadata s')) =
          (if n \<in> name ` set (files (loadMetadata s)) then map name (files (loadMetadata s))
           else map name (files (loadMetadata s)) @ [n]))"
proof -
  have 1: "listFiles s = (Json_files (files (loadMetadata s)), s)"
    by (simp add: listFiles_def)
  have 2: "listFiles_spec s = map (\<lambda>f. (name f, length (versions f))) (files (loadMetadata s))"
    by (simp add: listFiles_spec_def)
  have 3: "\<forall>H u n p t1 t2 v s'. upload H u n p t1 t2 s = (Uploaded v, s') \<longrightarrow>
        map name (files (loadMetadata s')) =
          (if n \<in> name ` set (files (loadMetadata s)) then map name (files (loadMetadata s))
           else map name (files (loadMetadata s)) @ [n])"
    using upload_names by (intro allI impI)
  from 1 2 3 show ?thesis by (intro conjI)
qed

theorem listFiles_whole_records_witness:
  "upload example_digest alice ''spec.txt'' ''storage/files/7-spec.txt'' 8 9 fresh_disk
       = (Uploaded 1, stored ''olleh'')
   \<and> map name (files (loadMetadata (stored ''olleh''))) = [''spec.txt'']
   \<and> fst (listFiles (stored ''olleh'')) =
       Json_files [\<lparr>name = ''spec.txt'',
                    versions = [\<lparr>version = 1, path = ''storage/files/7-spec.txt'', hash = ''olleh'',
                                 uploadedBy = ''alice'', uploadedAt = 9\<rparr>]\<rparr>]"
proof -
  have e: "files (loadMetadata fresh_disk) = []"
    by (simp add: fresh_disk_def loadMetadata_def)
  have "map name (files (loadMetadata (stored ''olleh''))) =
          (if ''spec.txt'' \<in> name ` set (files (loadMetadata fresh_disk))
           then map name (files (loadMetadata fresh_disk))
           else map name (files (loadMetadata fresh_disk)) @ [''spec.txt''])"
    using listFiles_whole_records [of fresh_disk, THEN conjunct2, THEN conjunct2, rule_format,
        OF first_upload] .
  then have a: "map name (files (loadMetadata (stored ''olleh''))) = [''spec.txt'']"
    by (simp add: e)
  have b: "fst (listFiles (stored ''olleh'')) =
       Json_files [\<lparr>name = ''spec.txt'',
                    versions = [\<lparr>version = 1, path = ''storage/files/7-spec.txt'', hash = ''olleh'',
                                 uploadedBy = ''alice'', uploadedAt = 9\<rparr>]\<rparr>]"
    by (simp add: listFiles_def stored_def loadMetadata_def)
  from first_upload a b show ?thesis by (intro conjI)
qed

text \<open>
  C9 as stated fails: two disks with the same names and version counts, whose stored hashes
  differ, get different answers: the answer carries the version records.
\<close>

theorem listFiles_exposes_versions:
  "listFiles_spec (stored ''olleh'') = listFiles_spec (stored ''other'')
   \<and> fst (listFiles (stored ''olleh'')) \<noteq> fst (listFiles (stored ''other''))"
  by (simp add: listFiles_spec_def listFiles_def stored_def loadMetadata_def)

end
